theory Spec2Isabelle
  imports Main "HOL-Library.Word" "HOL-Library.Char_ord"
begin

unbundle bit_operations_syntax

section \<open>Data model\<close>

text \<open>
  A Go \<^verbatim>\<open>string\<close> is a sequence of bytes; it is modelled as a \<^typ>\<open>string\<close>, every
  \<^typ>\<open>char\<close> being one byte. A \<^verbatim>\<open>[]byte\<close> is a list of 8-bit words, an
  \<^verbatim>\<open>int32\<close> a 32-bit word (read as two's complement with \<^term>\<open>sint\<close>), a
  \<^verbatim>\<open>uint16\<close> a 16-bit word.
\<close>

type_synonym byte = "8 word"
type_synonym int32 = "32 word"
type_synonym uint16 = "16 word"

text \<open>The conversions \<^verbatim>\<open>[]byte(s)\<close> and \<^verbatim>\<open>string(bs)\<close>.\<close>

definition byte_of_char :: "char \<Rightarrow> byte" where
  "byte_of_char c = word_of_nat (of_char c)"

definition char_of_byte :: "byte \<Rightarrow> char" where
  "char_of_byte b = char_of (unat b)"

definition bytes_of :: "string \<Rightarrow> byte list" where
  "bytes_of s = map byte_of_char s"

definition string_of :: "byte list \<Rightarrow> string" where
  "string_of bs = map char_of_byte bs"

text \<open>
  The errors of the package and of the library functions it calls. \<open>ErrUnexpectedRequestID\<close>
  and \<open>ErrUnexpectedPacketType\<close> stand for the two \<^verbatim>\<open>fmt.Errorf\<close> messages of the RCON
  client; they carry the expected value written in the message and the received value
  formatted into it. \<open>AddressError\<close> is \<^verbatim>\<open>address: cannot parse "%s"\<close>. \<open>NumError\<close>
  is \<^verbatim>\<open>strconv.NumError\<close> with its \<^verbatim>\<open>Num\<close> and \<^verbatim>\<open>Err\<close> fields. \<open>NetError\<close> is any
  other error of the transport. The three panics are not returned values: they are the
  run-time panics of \<^verbatim>\<open>make\<close> with a negative length, of a method call on a nil
  interface and of a send on a closed channel.
\<close>

datatype num_err = ErrRange | ErrSyntax

datatype error =
    ErrNotConnected
  | ErrAlreadyLoggedIn
  | ErrNotAuthenticated
  | ErrInvalidPassword
  | ErrUnexpectedRequestID int32 int32
  | ErrUnexpectedPacketType int32 int32
  | AddressError string
  | NumError string num_err
  | EOF
  | ErrUnexpectedEOF
  | NetError nat
  | PanicMakeslice
  | PanicNilDereference
  | PanicSendOnClosed

fun is_panic :: "error \<Rightarrow> bool" where
  "is_panic PanicMakeslice = True"
| "is_panic PanicNilDereference = True"
| "is_panic PanicSendOnClosed = True"
| "is_panic _ = False"

section \<open>Byte sources\<close>

subsection \<open>The read side of a stream connection\<close>

text \<open>
  The read side of the TCP connection of the RCON client is the data it will deliver, in
  the segments in which successive \<^verbatim>\<open>Read\<close> calls find it, and the error every
  \<^verbatim>\<open>Read\<close> returns once the data is exhausted (\<open>EOF\<close> for a clean end of stream).
  \<open>Read r k\<close> is \<^verbatim>\<open>r.Read(p)\<close> with \<^verbatim>\<open>len(p) = k\<close>: it returns the bytes stored at
  the front of \<^verbatim>\<open>p\<close> (their number is the \<^verbatim>\<open>n\<close> of Go), the error, and the reader
  afterwards. A read into an empty buffer returns at once; a read delivers at most the
  segment at the front, so it can be short. An empty segment is a \<^verbatim>\<open>Read\<close> that returns
  \<^verbatim>\<open>0, nil\<close>. A read of such a connection returns data or an error, never both.
\<close>

record reader =
  rx :: "byte list list"
  rx_err :: error

definition Read :: "'a reader_scheme \<Rightarrow> nat \<Rightarrow> byte list \<times> error option \<times> 'a reader_scheme" where
  "Read r k =
     (if k = 0 then ([], None, r)
      else case rx r of
        [] \<Rightarrow> ([], Some (rx_err r), r)
      | ch # rest \<Rightarrow>
          if length ch \<le> k then (ch, None, r\<lparr>rx := rest\<rparr>)
          else (take k ch, None, r\<lparr>rx := drop k ch # rest\<rparr>))"

text \<open>The buffer of length \<open>k\<close> after a read that stored \<open>bs\<close>: the rest keeps its zeros.\<close>

definition buffer :: "nat \<Rightarrow> byte list \<Rightarrow> byte list" where
  "buffer k bs = bs @ replicate (k - length bs) 0"

text \<open>\<open>rx_only r r'\<close>: the reader \<open>r'\<close> is \<open>r\<close> after some reads, nothing else has changed.\<close>

definition rx_only :: "'a reader_scheme \<Rightarrow> 'a reader_scheme \<Rightarrow> bool" where
  "rx_only r r' \<longleftrightarrow> (\<exists>rx'. r' = r\<lparr>rx := rx'\<rparr>)"

definition pending :: "'a reader_scheme \<Rightarrow> nat" where
  "pending r = sum_list (map (\<lambda>ch. Suc (length ch)) (rx r))"

section \<open>util.go\<close>

subsection \<open>readNTString\<close>

text \<open>
  \<^verbatim>\<open>readNTString\<close> takes any \<^verbatim>\<open>io.Reader\<close>. Such a reader is what its coming \<^verbatim>\<open>Read\<close>
  calls will return: each entry of \<open>reads\<close> is the bytes the reader has at hand and the
  error, if any, that it returns together with the last of them; \<open>reads_err\<close> is the
  error of every \<^verbatim>\<open>Read\<close> after the last entry. So a \<^verbatim>\<open>Read\<close> can return no byte and no
  error (an entry \<open>([], None)\<close>), and it can return bytes together with an error, both
  of which \<^verbatim>\<open>io.Reader\<close> allows. A buffer shorter than the bytes at hand takes its fill
  without the error and leaves the rest, with the error, for the next \<^verbatim>\<open>Read\<close>.
\<close>

record ioReader =
  reads :: "(byte list \<times> error option) list"
  reads_err :: error

definition io_Read :: "ioReader \<Rightarrow> nat \<Rightarrow> byte list \<times> error option \<times> ioReader" where
  "io_Read r k =
     (if k = 0 then ([], None, r)
      else case reads r of
        [] \<Rightarrow> ([], Some (reads_err r), r)
      | (bs, err) # later \<Rightarrow>
          if length bs \<le> k then (bs, err, r\<lparr>reads := later\<rparr>)
          else (take k bs, None, r\<lparr>reads := (drop k bs, err) # later\<rparr>))"

definition io_pending :: "ioReader \<Rightarrow> nat" where
  "io_pending r = sum_list (map (\<lambda>(bs, err). Suc (length bs)) (reads r))"

text \<open>
  The loop of \<^verbatim>\<open>readNTString\<close>, with the accumulated \<^verbatim>\<open>result\<close> as an argument. Each
  round reads into a fresh one-byte buffer and looks at the error only, not at the
  number of bytes read: an error returns the empty string and the error; a zero byte in
  the buffer ends the loop.
\<close>

function readNTString_loop ::
  "ioReader \<Rightarrow> byte list \<Rightarrow> string \<times> error option \<times> ioReader" where
  "readNTString_loop r result =
     (case io_Read r 1 of
        (bs, Some e, r') \<Rightarrow> ([], Some e, r')
      | (bs, None, r') \<Rightarrow>
          if buffer 1 bs ! 0 = 0 then (string_of result, None, r')
          else readNTString_loop r' (result @ buffer 1 bs))"
  by pat_completeness auto
termination
  apply (relation "measure (\<lambda>(r, result). io_pending r)")
   apply simp
  apply (auto simp: io_Read_def io_pending_def split: list.splits if_splits)
  done

definition readNTString :: "ioReader \<Rightarrow> string \<times> error option \<times> ioReader" where
  "readNTString r = readNTString_loop r []"

subsection \<open>ParseAddress\<close>

text \<open>
  \<^verbatim>\<open>addressRegExp\<close> is \<^verbatim>\<open>^([A-Za-z0-9.]+)(?::(\d{1,5}))?$\<close>. In Go's syntax \<^verbatim>\<open>^\<close> and
  \<^verbatim>\<open>$\<close> match only at the two ends of the text, and \<^verbatim>\<open>\d\<close> is an ASCII digit.
  \<open>isHostChar\<close> is the class of group 1 and \<open>isDigit\<close> the class of group 2.
\<close>

definition isHostChar :: "char \<Rightarrow> bool" where
  "isHostChar c \<longleftrightarrow>
     (CHR ''A'' \<le> c \<and> c \<le> CHR ''Z'') \<or> (CHR ''a'' \<le> c \<and> c \<le> CHR ''z'') \<or>
     (CHR ''0'' \<le> c \<and> c \<le> CHR ''9'') \<or> c = CHR ''.''"

definition isDigit :: "char \<Rightarrow> bool" where
  "isDigit c \<longleftrightarrow> CHR ''0'' \<le> c \<and> c \<le> CHR ''9''"

text \<open>
  \<^verbatim>\<open>addressRegExp.FindAllStringSubmatch(address, -1)\<close>. The pattern is anchored at both
  ends, so there is at most one match, and it is the whole text. Group 1 is the longest
  prefix of host characters: a shorter one would be followed by a host character, where
  the pattern wants a colon or the end. A match is the row of the whole match, group 1
  and group 2, group 2 being empty when the port segment is absent. No match is the
  empty list (\<^verbatim>\<open>nil\<close>).
\<close>

definition FindAllStringSubmatch :: "string \<Rightarrow> string list list" where
  "FindAllStringSubmatch address =
     (let host = takeWhile isHostChar address; rest = dropWhile isHostChar address in
      if host = [] then []
      else case rest of
        [] \<Rightarrow> [[address, host, []]]
      | c # port \<Rightarrow>
          if c = CHR '':'' \<and> 1 \<le> length port \<and> length port \<le> 5 \<and> list_all isDigit port
          then [[address, host, port]]
          else [])"

text \<open>
  \<^verbatim>\<open>strconv.ParseUint(s, 10, 16)\<close>: the empty string and a character that is not a
  decimal digit are syntax errors; the value is accumulated digit by digit and the
  function returns a range error as soon as it exceeds \<open>65535\<close>.
\<close>

fun ParseUint_loop :: "string \<Rightarrow> nat \<Rightarrow> string \<Rightarrow> error + nat" where
  "ParseUint_loop s0 n [] = Inr n"
| "ParseUint_loop s0 n (c # cs) =
     (if \<not> isDigit c then Inl (NumError s0 ErrSyntax)
      else let n1 = n * 10 + (of_char c - of_char CHR ''0'') in
        if n1 > 65535 then Inl (NumError s0 ErrRange)
        else ParseUint_loop s0 n1 cs)"

definition ParseUint :: "string \<Rightarrow> error + nat" where
  "ParseUint s = (if s = [] then Inl (NumError s ErrSyntax) else ParseUint_loop s 0 s)"

definition ParseAddress :: "string \<Rightarrow> uint16 \<Rightarrow> string \<times> uint16 \<times> error option" where
  "ParseAddress address defaultPort =
     (let matches = FindAllStringSubmatch address in
      if matches = [] \<or> length matches < 1 then ([], defaultPort, Some (AddressError address))
      else if length (matches ! 0) < 3 \<or> length (matches ! 0 ! 2) < 1
        then (matches ! 0 ! 1, defaultPort, None)
      else case ParseUint (matches ! 0 ! 2) of
          Inl err \<Rightarrow> ([], defaultPort, Some err)
        | Inr port \<Rightarrow> (matches ! 0 ! 1, word_of_nat port, None))"

text \<open>
  The pattern in the words of the specification: \<open>host[:port]\<close>, the host one or more
  letters, digits and dots, the port one to five decimal digits.
\<close>

definition host_port :: "string \<Rightarrow> string \<Rightarrow> string \<Rightarrow> bool" where
  "host_port address host port \<longleftrightarrow>
     host \<noteq> [] \<and> list_all isHostChar host \<and>
     (address = host \<and> port = [] \<or>
      address = host @ CHR '':'' # port \<and> 1 \<le> length port \<and> length port \<le> 5 \<and>
        list_all isDigit port)"

text \<open>The value of a string of decimal digits.\<close>

definition decimal :: "string \<Rightarrow> nat" where
  "decimal ds = foldl (\<lambda>n c. n * 10 + (of_char c - of_char CHR ''0'')) 0 ds"

section \<open>The transport (\<^verbatim>\<open>net.Conn\<close>)\<close>

text \<open>
  A connection is a reader together with the bytes written to it so far (\<open>tx\<close>) and the
  outcomes its other methods will have: \<open>tx_script\<close> holds, for the coming \<^verbatim>\<open>Write\<close>
  calls in order, \<open>None\<close> for a write that succeeds and \<open>Some (e, n)\<close> for one that
  fails with \<open>e\<close> after \<open>n\<close> bytes (a write beyond the script succeeds);
  \<open>setDeadline_err\<close>, \<open>setReadDeadline_err\<close> and \<open>close_err\<close> are what
  \<^verbatim>\<open>SetDeadline\<close>, \<^verbatim>\<open>SetReadDeadline\<close> and \<^verbatim>\<open>Close\<close> return.
\<close>

record netConn = reader +
  tx :: "byte list"
  tx_script :: "(error \<times> nat) option list"
  setDeadline_err :: "error option"
  setReadDeadline_err :: "error option"
  close_err :: "error option"

definition Write :: "netConn \<Rightarrow> byte list \<Rightarrow> error option \<times> netConn" where
  "Write c bs =
     (case tx_script c of
        [] \<Rightarrow> (None, c\<lparr>tx := tx c @ bs\<rparr>)
      | None # script \<Rightarrow> (None, c\<lparr>tx := tx c @ bs, tx_script := script\<rparr>)
      | Some (e, n) # script \<Rightarrow> (Some e, c\<lparr>tx := tx c @ take n bs, tx_script := script\<rparr>))"

text \<open>
  \<^verbatim>\<open>io.Copy(r.conn, buf)\<close> with \<^verbatim>\<open>buf\<close> a \<^verbatim>\<open>*bytes.Buffer\<close>: the buffer is an
  \<^verbatim>\<open>io.WriterTo\<close>, so its content goes to the connection in one \<^verbatim>\<open>Write\<close>.
\<close>

definition io_Copy :: "netConn \<Rightarrow> byte list \<Rightarrow> error option \<times> netConn" where
  "io_Copy c buf = Write c buf"

subsection \<open>encoding/binary and io.ReadFull\<close>

definition le32 :: "int32 \<Rightarrow> byte list" where
  "le32 w = [ucast w, ucast (drop_bit 8 w), ucast (drop_bit 16 w), ucast (drop_bit 24 w)]"

definition le32_decode :: "byte list \<Rightarrow> int32" where
  "le32_decode bs =
     ucast (bs ! 0) OR push_bit 8 (ucast (bs ! 1)) OR push_bit 16 (ucast (bs ! 2)) OR
     push_bit 24 (ucast (bs ! 3))"

text \<open>\<^verbatim>\<open>binary.LittleEndian.Uint16\<close>: the first two bytes only.\<close>

definition Uint16 :: "byte list \<Rightarrow> uint16" where
  "Uint16 bs = ucast (bs ! 0) OR push_bit 8 (ucast (bs ! 1))"

text \<open>
  \<^verbatim>\<open>io.ReadFull\<close> reads until the buffer of length \<open>k\<close> is full or a read fails. With
  the buffer full there is no error; an \<open>EOF\<close> after some bytes is \<open>ErrUnexpectedEOF\<close>.
\<close>

function ReadFull_loop ::
  "'a reader_scheme \<Rightarrow> nat \<Rightarrow> byte list \<Rightarrow> byte list \<times> error option \<times> 'a reader_scheme" where
  "ReadFull_loop r k acc =
     (if length acc < k then
        (case Read r (k - length acc) of
           (bs, Some e, r') \<Rightarrow> (acc @ bs, Some e, r')
         | (bs, None, r') \<Rightarrow> ReadFull_loop r' k (acc @ bs))
      else (acc, None, r))"
  by pat_completeness auto
termination
  apply (relation "measure (\<lambda>(r, k, acc). pending r)")
   apply simp
  apply (auto simp: Read_def pending_def split: list.splits if_splits)
  done

definition ReadFull :: "'a reader_scheme \<Rightarrow> nat \<Rightarrow> byte list \<times> error option \<times> 'a reader_scheme" where
  "ReadFull r k =
     (case ReadFull_loop r k [] of (bs, err, r') \<Rightarrow>
        if k \<le> length bs then (bs, None, r')
        else if 0 < length bs \<and> err = Some EOF then (bs, Some ErrUnexpectedEOF, r')
        else (bs, err, r'))"

text \<open>\<^verbatim>\<open>binary.Read(r, binary.LittleEndian, &v)\<close> for an \<^verbatim>\<open>int32\<close>.\<close>

definition binary_Read :: "'a reader_scheme \<Rightarrow> (error + int32) \<times> 'a reader_scheme" where
  "binary_Read r =
     (case ReadFull r 4 of
        (bs, Some e, r') \<Rightarrow> (Inl e, r')
      | (bs, None, r') \<Rightarrow> (Inr (le32_decode bs), r'))"

section \<open>The RCON client\<close>

text \<open>
  A channel is the values sent on it so far and whether it has been closed; the receiver
  is taken to be ready, so a send does not block. A send on a closed channel panics.
\<close>

record 'a chan =
  sent :: "'a list"
  closed :: bool

text \<open>
  \<open>RCONClient\<close> is the struct, with the state of the connection in the place of the
  reference to it. A \<open>session\<close> adds what the client does to its surroundings: the
  number of background goroutines \<^verbatim>\<open>Login\<close> has started (\<open>pumps\<close>), the errors the
  goroutine has printed (\<open>stdout\<close>) and the connections \<^verbatim>\<open>Close\<close> has closed
  (\<open>released\<close>).
\<close>

record RCONClient =
  conn :: "netConn option"
  Messages :: "string chan"
  runTrigger :: "bool chan"
  authSuccess :: bool
  requestID :: int32

record session = RCONClient +
  pumps :: nat
  stdout :: "error list"
  released :: "netConn list"

definition NewRCON :: session where
  "NewRCON = \<lparr>conn = None, Messages = \<lparr>sent = [], closed = False\<rparr>,
     runTrigger = \<lparr>sent = [], closed = False\<rparr>, authSuccess = False, requestID = 0,
     pumps = 0, stdout = [], released = []\<rparr>"

text \<open>
  \<^verbatim>\<open>Dial\<close>: the argument is what \<^verbatim>\<open>net.DialTimeout\<close> returns for the host, port and
  timeout given.
\<close>

definition Dial :: "error + netConn \<Rightarrow> session \<Rightarrow> error option \<times> session" where
  "Dial dialed r =
     (case dialed of
        Inl err \<Rightarrow> (Some err, r)
      | Inr c \<Rightarrow>
          (case setDeadline_err c of
             Some err \<Rightarrow> (Some err, r)
           | None \<Rightarrow> (None, r\<lparr>conn := Some c\<rparr>)))"

subsection \<open>Login\<close>

text \<open>The login request: length, request ID 0, type 3, the password, terminator, padding.\<close>

definition loginPacket :: "string \<Rightarrow> byte list" where
  "loginPacket password =
     le32 (word_of_nat (10 + length password)) @ le32 0 @ le32 3 @
     (bytes_of password @ [0]) @ [0]"

text \<open>
  The block that reads the login response. It returns the error with which \<^verbatim>\<open>Login\<close>
  returns from inside the block, or \<open>None\<close> when control leaves the block at its end.
  The remaining bytes are read with one \<^verbatim>\<open>Read\<close> into a buffer of
  \<^verbatim>\<open>packetLength-8\<close> bytes (an \<^verbatim>\<open>int32\<close> subtraction); a negative length panics.
\<close>

definition loginResponse :: "netConn \<Rightarrow> error option \<times> netConn" where
  "loginResponse c =
     (case binary_Read c of
        (Inl err, c1) \<Rightarrow> (Some err, c1)
      | (Inr packetLength, c1) \<Rightarrow>
     (case binary_Read c1 of
        (Inl err, c2) \<Rightarrow> (Some err, c2)
      | (Inr requestID', c2) \<Rightarrow>
          if requestID' = - 1 then (Some ErrInvalidPassword, c2)
          else if requestID' \<noteq> 0 then (Some (ErrUnexpectedRequestID 0 requestID'), c2)
          else
     (case binary_Read c2 of
        (Inl err, c3) \<Rightarrow> (Some err, c3)
      | (Inr packetType, c3) \<Rightarrow>
          if packetType \<noteq> 2 then (Some (ErrUnexpectedPacketType 2 packetType), c3)
          else if sint (packetLength - 8) < 0 then (Some PanicMakeslice, c3)
          else
     (case Read c3 (nat (sint (packetLength - 8))) of
        (data, Some err, c4) \<Rightarrow> (Some err, c4)
      | (data, None, c4) \<Rightarrow> (None, c4)))))"

definition Login :: "string \<Rightarrow> session \<Rightarrow> error option \<times> session" where
  "Login password r =
     (case conn r of
        None \<Rightarrow> (Some ErrNotConnected, r)
      | Some c \<Rightarrow>
          if authSuccess r then (Some ErrAlreadyLoggedIn, r)
          else
     (case io_Copy c (loginPacket password) of
        (Some err, c1) \<Rightarrow> (Some err, r\<lparr>conn := Some c1\<rparr>)
      | (None, c1) \<Rightarrow>
     (case loginResponse c1 of
        (Some err, c2) \<Rightarrow> (Some err, r\<lparr>conn := Some c2\<rparr>)
      | (None, c2) \<Rightarrow>
     (case setReadDeadline_err c2 of
        Some err \<Rightarrow> (Some err, r\<lparr>conn := Some c2, authSuccess := True\<rparr>)
      | None \<Rightarrow> (None, r\<lparr>conn := Some c2, authSuccess := True, pumps := pumps r + 1\<rparr>)))))"

subsection \<open>Run\<close>

definition commandPacket :: "int32 \<Rightarrow> string \<Rightarrow> byte list" where
  "commandPacket requestID' command =
     le32 (word_of_nat (10 + length command)) @ le32 requestID' @ le32 2 @
     (bytes_of command @ [0]) @ [0]"

definition Run :: "string \<Rightarrow> session \<Rightarrow> error option \<times> session" where
  "Run command r =
     (case conn r of
        None \<Rightarrow> (Some ErrNotConnected, r)
      | Some c \<Rightarrow>
          if \<not> authSuccess r then (Some ErrNotAuthenticated, r)
          else
            (case io_Copy c (commandPacket (requestID r + 1) command) of
               (err, c1) \<Rightarrow> (err, r\<lparr>requestID := requestID r + 1, conn := Some c1\<rparr>)))"

subsection \<open>Close\<close>

definition Close :: "session \<Rightarrow> error option \<times> session" where
  "Close r =
     (case conn r of
        None \<Rightarrow> (None, r\<lparr>authSuccess := False, requestID := 0, conn := None\<rparr>)
      | Some c \<Rightarrow>
          (case close_err c of
             Some err \<Rightarrow> (Some err, r\<lparr>authSuccess := False, requestID := 0\<rparr>)
           | None \<Rightarrow>
               (None, r\<lparr>authSuccess := False, requestID := 0, conn := None,
                  released := released r @ [c]\<rparr>)))"

subsection \<open>readMessage and the background goroutine\<close>

text \<open>
  \<^verbatim>\<open>readMessage\<close>. The length and the request ID are read with one \<^verbatim>\<open>Read\<close> each into
  a four-byte buffer, and a read of fewer than four bytes returns \<^verbatim>\<open>nil\<close>; the length is
  decoded from the first two bytes; the type is read with \<^verbatim>\<open>binary.Read\<close>; the payload
  is read with one \<^verbatim>\<open>Read\<close>, a read of no byte returns \<^verbatim>\<open>nil\<close>, and otherwise the whole
  buffer is sent on \<^verbatim>\<open>Messages\<close>. With no connection the call of \<^verbatim>\<open>r.conn.Read\<close> panics.
\<close>

definition readMessage :: "session \<Rightarrow> error option \<times> session" where
  "readMessage r =
     (case conn r of
        None \<Rightarrow> (Some PanicNilDereference, r)
      | Some c \<Rightarrow>
     (case Read c 4 of
        (bs, Some err, c1) \<Rightarrow> (Some err, r\<lparr>conn := Some c1\<rparr>)
      | (bs, None, c1) \<Rightarrow>
          if length bs < 4 then (None, r\<lparr>conn := Some c1\<rparr>)
          else
     (let packetLength = (ucast (Uint16 (buffer 4 bs)) :: int32) in
      case Read c1 4 of
        (bs', Some err, c2) \<Rightarrow> (Some err, r\<lparr>conn := Some c2\<rparr>)
      | (bs', None, c2) \<Rightarrow>
          if length bs' < 4 then (None, r\<lparr>conn := Some c2\<rparr>)
          else
     (case binary_Read c2 of
        (Inl err, c3) \<Rightarrow> (Some err, r\<lparr>conn := Some c3\<rparr>)
      | (Inr packetType, c3) \<Rightarrow>
          if packetType \<noteq> 2 then
            (Some (ErrUnexpectedPacketType 0 packetType), r\<lparr>conn := Some c3\<rparr>)
          else if sint (packetLength - 8) < 0 then
            (Some PanicMakeslice, r\<lparr>conn := Some c3\<rparr>)
          else
     (case Read c3 (nat (sint (packetLength - 8))) of
        (data, Some err, c4) \<Rightarrow> (Some err, r\<lparr>conn := Some c4\<rparr>)
      | (data, None, c4) \<Rightarrow>
          if length data < 1 then (None, r\<lparr>conn := Some c4\<rparr>)
          else if closed (Messages r) then (Some PanicSendOnClosed, r\<lparr>conn := Some c4\<rparr>)
          else
            (None, r\<lparr>conn := Some c4,
               Messages := (Messages r)\<lparr>sent := sent (Messages r) @
                 [string_of (buffer (nat (sint (packetLength - 8))) data)]\<rparr>\<rparr>))))))"

text \<open>
  The goroutine started by \<^verbatim>\<open>Login\<close> is \<^verbatim>\<open>for { err := r.readMessage(); if err != nil
  { fmt.Println(err) } }\<close>. \<open>pumpRound\<close> is one round of the loop: its first component
  is the panic, if \<^verbatim>\<open>readMessage\<close> panicked. \<open>pump n\<close> runs at most \<open>n\<close> rounds:
  \<open>Looping\<close> is the state with the goroutine still in the loop after \<open>n\<close> rounds,
  \<open>Crashed\<close> a panic inside \<^verbatim>\<open>readMessage\<close>, \<open>Returned\<close> the goroutine having left the
  loop.
\<close>

definition pumpRound :: "session \<Rightarrow> error option \<times> session" where
  "pumpRound r =
     (case readMessage r of
        (Some err, r') \<Rightarrow>
          if is_panic err then (Some err, r')
          else (None, r'\<lparr>stdout := stdout r' @ [err]\<rparr>)
      | (None, r') \<Rightarrow> (None, r'))"

datatype pump_result = Looping session | Crashed error session | Returned session

fun pump :: "nat \<Rightarrow> session \<Rightarrow> pump_result" where
  "pump 0 r = Looping r"
| "pump (Suc n) r =
     (case pumpRound r of
        (Some panic, r') \<Rightarrow> Crashed panic r'
      | (None, r') \<Rightarrow> pump n r')"

text \<open>What the goroutine has sent on \<^verbatim>\<open>Messages\<close> and what it has printed.\<close>

fun delivered :: "pump_result \<Rightarrow> string list" where
  "delivered (Looping r) = sent (Messages r)"
| "delivered (Crashed panic r) = sent (Messages r)"
| "delivered (Returned r) = sent (Messages r)"

fun printed :: "pump_result \<Rightarrow> error list" where
  "printed (Looping r) = stdout r"
| "printed (Crashed panic r) = stdout r"
| "printed (Returned r) = stdout r"

section \<open>Sessions\<close>

text \<open>
  The sessions a caller can bring about: a new client, and from there any sequence of
  \<^verbatim>\<open>Dial\<close>, \<^verbatim>\<open>Login\<close>, \<^verbatim>\<open>Run\<close> and \<^verbatim>\<open>Close\<close> calls with any arguments and any behaviour
  of the network, interleaved with rounds of a background goroutine once one has been
  started.
\<close>

inductive reachable :: "session \<Rightarrow> bool" where
  new: "reachable NewRCON"
| dial: "reachable r \<Longrightarrow> reachable (snd (Dial dialed r))"
| login: "reachable r \<Longrightarrow> reachable (snd (Login password r))"
| run: "reachable r \<Longrightarrow> reachable (snd (Run command r))"
| close: "reachable r \<Longrightarrow> reachable (snd (Close r))"
| round: "reachable r \<Longrightarrow> 0 < pumps r \<Longrightarrow> reachable (snd (pumpRound r))"



text \<open>\<open>runs n command\<close> is \<open>n\<close> calls of \<^verbatim>\<open>Run\<close> in a row.\<close>

fun runs :: "nat \<Rightarrow> string \<Rightarrow> session \<Rightarrow> session" where
  "runs 0 command r = r"
| "runs (Suc n) command r = runs n command (snd (Run command r))"

text \<open>
  A sequence of calls on a session: the four operations of the caller with their
  arguments, and rounds of the background goroutine, in the order in which they happen.
  \<open>calls cs r\<close> is the session after the calls \<open>cs\<close>, and \<open>run_count cs\<close> is the number
  of \<^verbatim>\<open>Run\<close> calls among them.
\<close>

datatype call =
    CallDial "error + netConn"
  | CallLogin string
  | CallRun string
  | CallClose
  | GoroutineRound

fun perform :: "call \<Rightarrow> session \<Rightarrow> session" where
  "perform (CallDial dialed) r = snd (Dial dialed r)"
| "perform (CallLogin password) r = snd (Login password r)"
| "perform (CallRun command) r = snd (Run command r)"
| "perform CallClose r = snd (Close r)"
| "perform GoroutineRound r = (if 0 < pumps r then snd (pumpRound r) else r)"

fun calls :: "call list \<Rightarrow> session \<Rightarrow> session" where
  "calls [] r = r"
| "calls (c # cs) r = calls cs (perform c r)"

fun is_run :: "call \<Rightarrow> bool" where
  "is_run (CallRun command) = True"
| "is_run _ = False"

definition run_count :: "call list \<Rightarrow> nat" where
  "run_count cs = length (filter is_run cs)"

text \<open>A connection whose next \<^verbatim>\<open>Write\<close> succeeds.\<close>

definition writable :: "netConn \<Rightarrow> bool" where
  "writable c \<longleftrightarrow> (case tx_script c of Some failure # script \<Rightarrow> False | _ \<Rightarrow> True)"

text \<open>The length field of a frame, as its receiver decodes it.\<close>

definition declaredLength :: "byte list \<Rightarrow> int" where
  "declaredLength frame = sint (le32_decode (take 4 frame))"

subsection \<open>Example connections and sessions\<close>

text \<open>
  A server that accepts the login: its response has length 10, request ID 0, type 2 and
  an empty payload with terminator and padding; then the stream ends.
\<close>

definition okConn :: netConn where
  "okConn = \<lparr>rx = [[10, 0, 0, 0], [0, 0, 0, 0], [2, 0, 0, 0], [0, 0]], rx_err = EOF,
     tx = [], tx_script = [], setDeadline_err = None, setReadDeadline_err = None,
     close_err = None\<rparr>"

definition connected :: session where
  "connected = snd (Dial (Inr okConn) NewRCON)"

definition authenticated :: session where
  "authenticated = snd (Login ''pw'' connected)"








text \<open>
  After the login response the server sends one command response: length 12, request ID
  7, type 2 and the payload \<^verbatim>\<open>hi\<close> with terminator and padding. \<open>wholeFrame\<close> receives
  each field in a segment of its own, \<open>splitLength\<close> receives the length field in two
  segments, and \<open>splitPayload\<close> receives the payload in two segments.
\<close>

definition wholeFrame :: session where
  "wholeFrame = snd (Login ''pw'' (snd (Dial (Inr (okConn\<lparr>rx := rx okConn @
     [[12, 0, 0, 0], [7, 0, 0, 0], [2, 0, 0, 0], [104, 105, 0, 0]]\<rparr>)) NewRCON)))"

definition splitLength :: session where
  "splitLength = snd (Login ''pw'' (snd (Dial (Inr (okConn\<lparr>rx := rx okConn @
     [[12, 0], [0, 0], [7, 0, 0, 0], [2, 0, 0, 0], [104, 105, 0, 0]]\<rparr>)) NewRCON)))"

definition splitPayload :: session where
  "splitPayload = snd (Login ''pw'' (snd (Dial (Inr (okConn\<lparr>rx := rx okConn @
     [[12, 0, 0, 0], [7, 0, 0, 0], [2, 0, 0, 0], [104], [105, 0, 0]]\<rparr>)) NewRCON)))"

text \<open>A command response with an empty payload: length 8, request ID 7, type 2.\<close>

definition emptyFrame :: session where
  "emptyFrame = snd (Login ''pw'' (snd (Dial (Inr (okConn\<lparr>rx := rx okConn @
     [[8, 0, 0, 0], [7, 0, 0, 0], [2, 0, 0, 0]]\<rparr>)) NewRCON)))"

section \<open>Properties\<close>

subsection \<open>Bytes and strings\<close>

lemma char_of_byte_of_char: "char_of_byte (byte_of_char c) = c"
  by (simp add: char_of_byte_def byte_of_char_def unat_of_nat)

lemma string_of_bytes_of: "string_of (bytes_of s) = s"
  by (induction s) (simp_all add: string_of_def bytes_of_def char_of_byte_of_char)

lemma byte_of_char_eq_0: "byte_of_char c = 0 \<longleftrightarrow> c = CHR 0x00"
proof
  assume "byte_of_char c = 0"
  then have "char_of_byte (byte_of_char c) = char_of_byte 0" by simp
  then have "c = char_of_byte 0" by (simp only: char_of_byte_of_char)
  then show "c = CHR 0x00" by (simp add: char_of_byte_def char_of_def)
next
  assume "c = CHR 0x00"
  then show "byte_of_char c = 0" by (simp add: byte_of_char_def)
qed

lemma io_Read_one:
  assumes "reads r = map (\<lambda>bs. (bs, None)) segs @ later" and "[] \<notin> set segs"
    and "concat segs = b # bs"
  shows "\<exists>segs'. io_Read r 1 = ([b], None, r\<lparr>reads := map (\<lambda>bs. (bs, None)) segs' @ later\<rparr>) \<and>
           [] \<notin> set segs' \<and> concat segs' = bs"
proof (cases segs)
  case Nil
  with assms show ?thesis by simp
next
  case (Cons seg more)
  with assms obtain seg' where seg: "seg = b # seg'" by (cases seg) auto
  show ?thesis
  proof (cases seg')
    case Nil
    with Cons seg assms have "io_Read r 1 = ([b], None, r\<lparr>reads := map (\<lambda>bs. (bs, None)) more @ later\<rparr>)"
      "[] \<notin> set more" "concat more = bs"
      by (auto simp: io_Read_def)
    then show ?thesis by blast
  next
    case (Cons x xs)
    with \<open>segs = seg # more\<close> seg assms
    have "io_Read r 1 = ([b], None, r\<lparr>reads := map (\<lambda>bs. (bs, None)) (seg' # more) @ later\<rparr>)"
      "[] \<notin> set (seg' # more)" "concat (seg' # more) = bs"
      by (auto simp: io_Read_def)
    then show ?thesis by blast
  qed
qed

lemma readNTString_loop_correct:
  assumes "CHR 0x00 \<notin> set s" and "reads r = map (\<lambda>bs. (bs, None)) segs @ later"
    and "[] \<notin> set segs" and "concat segs = bytes_of s @ 0 # rest"
  shows "\<exists>segs'. readNTString_loop r acc =
            (string_of acc @ s, None, r\<lparr>reads := map (\<lambda>bs. (bs, None)) segs' @ later\<rparr>) \<and>
            concat segs' = rest"
  using assms
proof (induction s arbitrary: r acc segs)
  case Nil
  then have "concat segs = 0 # rest" by (simp add: bytes_of_def)
  from io_Read_one [OF Nil.prems(2) Nil.prems(3) this] obtain segs' where
    "io_Read r 1 = ([0], None, r\<lparr>reads := map (\<lambda>bs. (bs, None)) segs' @ later\<rparr>)"
    "concat segs' = rest" by blast
  then show ?case by (subst readNTString_loop.simps) (auto simp: buffer_def)
next
  case (Cons c s)
  then have cat: "concat segs = byte_of_char c # (bytes_of s @ 0 # rest)"
    by (simp add: bytes_of_def)
  from Cons.prems(1) have nz: "byte_of_char c \<noteq> 0" by (auto simp: byte_of_char_eq_0)
  from io_Read_one [OF Cons.prems(2) Cons.prems(3) cat] obtain segs' where
    rd: "io_Read r 1 = ([byte_of_char c], None, r\<lparr>reads := map (\<lambda>bs. (bs, None)) segs' @ later\<rparr>)"
    and ne: "[] \<notin> set segs'" and rest: "concat segs' = bytes_of s @ 0 # rest" by blast
  from Cons.prems(1) have s: "CHR 0x00 \<notin> set s" by simp
  let ?r' = "r\<lparr>reads := map (\<lambda>bs. (bs, None)) segs' @ later\<rparr>"
  have "reads ?r' = map (\<lambda>bs. (bs, None)) segs' @ later" by simp
  from Cons.IH [OF s this ne rest, of "acc @ [byte_of_char c]"] obtain segs'' where
    "readNTString_loop ?r' (acc @ [byte_of_char c]) =
       (string_of (acc @ [byte_of_char c]) @ s, None,
        ?r'\<lparr>reads := map (\<lambda>bs. (bs, None)) segs'' @ later\<rparr>)"
    "concat segs'' = rest" by blast
  with rd nz show ?case
    by (subst readNTString_loop.simps) (auto simp: buffer_def string_of_def char_of_byte_of_char)
qed

text \<open>
  The claim C7 as stated fails on two kinds of source. The contents of the first are
  \<^verbatim>\<open>ab\<close> and the terminator, and its second \<^verbatim>\<open>Read\<close> returns no byte and no error:
  \<^verbatim>\<open>readNTString\<close> does not look at the number of bytes read, takes the zero of the
  fresh buffer for the terminator and returns \<^verbatim>\<open>a\<close>. The second source returns the
  terminator together with \<open>EOF\<close>: \<^verbatim>\<open>readNTString\<close> returns the empty string and the
  error.
\<close>

theorem readNTString_misreads:
  "readNTString \<lparr>reads = [([0x61], None), ([], None), ([0x62], None), ([0], None)],
     reads_err = EOF\<rparr> =
     (''a'', None, \<lparr>reads = [([0x62], None), ([0], None)], reads_err = EOF\<rparr>) \<and>
   readNTString \<lparr>reads = [([0x61], None), ([0x62], None), ([0], Some EOF)], reads_err = EOF\<rparr> =
     ([], Some EOF, \<lparr>reads = [], reads_err = EOF\<rparr>)"
  by code_simp

text \<open>
  C7, amended. For every string \<open>s\<close> without a zero byte, and every source that holds
  the bytes of \<open>s\<close>, a zero byte and then any further bytes, and whose \<^verbatim>\<open>Read\<close> calls up
  to the one that delivers the terminator each return at least one byte and no error
  (in segments of any length), \<^verbatim>\<open>readNTString\<close> returns exactly \<open>s\<close> and no error; the
  terminator is consumed and is not part of the result, and the source is left at the
  byte after it, with whatever it returns later untouched.
\<close>

theorem readNTString_roundtrip:
  assumes "CHR 0x00 \<notin> set s" and "reads r = map (\<lambda>bs. (bs, None)) segs @ later"
    and "[] \<notin> set segs" and "concat segs = bytes_of s @ 0 # rest"
  shows "\<exists>segs'. readNTString r = (s, None, r\<lparr>reads := map (\<lambda>bs. (bs, None)) segs' @ later\<rparr>) \<and>
           concat segs' = rest"
  using readNTString_loop_correct [OF assms, of "[]"]
  by (auto simp: readNTString_def string_of_def)

theorem readNTString_roundtrip_witness:
  "CHR 0x00 \<notin> set ''abc'' \<and>
   reads \<lparr>reads = [([0x61, 0x62], None), ([0x63, 0, 7], None), ([], Some EOF)], reads_err = EOF\<rparr> =
     map (\<lambda>bs. (bs, None)) [[0x61, 0x62], [0x63, 0, 7]] @ [([], Some EOF)] \<and>
   [] \<notin> set [[0x61, 0x62], [0x63, 0, 7 :: byte]] \<and>
   concat [[0x61, 0x62], [0x63, 0, 7]] = bytes_of ''abc'' @ 0 # [7] \<and>
   (\<exists>segs'. readNTString \<lparr>reads = [([0x61, 0x62], None), ([0x63, 0, 7], None), ([], Some EOF)],
       reads_err = EOF\<rparr> =
      (''abc'', None, \<lparr>reads = map (\<lambda>bs. (bs, None)) segs' @ [([], Some EOF)], reads_err = EOF\<rparr>) \<and>
      concat segs' = [7])"
proof -
  let ?r = "\<lparr>reads = [([0x61, 0x62], None), ([0x63, 0, 7], None), ([], Some EOF)],
     reads_err = EOF\<rparr>"
  have h: "CHR 0x00 \<notin> set ''abc''"
    "reads ?r = map (\<lambda>bs. (bs, None)) [[0x61, 0x62], [0x63, 0, 7]] @ [([], Some EOF)]"
    "[] \<notin> set [[0x61, 0x62], [0x63, 0, 7 :: byte]]"
    "concat [[0x61, 0x62], [0x63, 0, 7]] = bytes_of ''abc'' @ 0 # [7]"
    by (simp_all add: bytes_of_def byte_of_char_def)
  from readNTString_roundtrip [OF h] obtain segs' where
    "readNTString ?r = (''abc'', None, ?r\<lparr>reads := map (\<lambda>bs. (bs, None)) segs' @ [([], Some EOF)]\<rparr>)"
    and "concat segs' = [7]" by blast
  then have "\<exists>segs'. readNTString ?r =
      (''abc'', None, \<lparr>reads = map (\<lambda>bs. (bs, None)) segs' @ [([], Some EOF)], reads_err = EOF\<rparr>) \<and>
      concat segs' = [7]"
    by (intro exI [of _ segs']) simp
  with h show ?thesis by blast
qed

subsection \<open>ParseAddress\<close>

lemma not_isHostChar_colon: "\<not> isHostChar CHR '':''"
  by (simp add: isHostChar_def)

lemma FindAllStringSubmatch_match:
  assumes "host_port address host port"
  shows "FindAllStringSubmatch address = [[address, host, port]]"
proof -
  from assms have h: "host \<noteq> []" "\<forall>c\<in>set host. isHostChar c"
    by (auto simp: host_port_def list_all_iff)
  from assms consider
      "address = host" "port = []"
    | "address = host @ CHR '':'' # port" "1 \<le> length port" "length port \<le> 5" "list_all isDigit port"
    by (auto simp: host_port_def)
  then show ?thesis
  proof cases
    case 1
    with h show ?thesis
      by (simp add: FindAllStringSubmatch_def Let_def takeWhile_eq_all_conv [THEN iffD2]
          dropWhile_eq_Nil_conv [THEN iffD2])
  next
    case 2
    with h have "takeWhile isHostChar address = host"
      "dropWhile isHostChar address = CHR '':'' # port"
      by (simp_all add: takeWhile_append2 dropWhile_append2 not_isHostChar_colon)
    with h 2 show ?thesis by (simp add: FindAllStringSubmatch_def Let_def)
  qed
qed

lemma FindAllStringSubmatch_row:
  assumes "FindAllStringSubmatch address \<noteq> []"
  shows "\<exists>host port. FindAllStringSubmatch address = [[address, host, port]] \<and>
           host_port address host port"
proof -
  let ?host = "takeWhile isHostChar address" and ?rest = "dropWhile isHostChar address"
  have split: "address = ?host @ ?rest" by simp
  have all: "list_all isHostChar ?host"
    by (auto simp: list_all_iff dest: set_takeWhileD)
  from assms have ne: "?host \<noteq> []"
    by (auto simp: FindAllStringSubmatch_def Let_def)
  show ?thesis
  proof (cases ?rest)
    case Nil
    with split have "address = ?host" by simp
    with ne all have "host_port address ?host []" by (simp add: host_port_def)
    then show ?thesis using FindAllStringSubmatch_match by blast
  next
    case (Cons c port)
    with assms ne have "c = CHR '':''" "1 \<le> length port" "length port \<le> 5" "list_all isDigit port"
      by (auto simp: FindAllStringSubmatch_def Let_def split: if_splits)
    moreover from split Cons have "address = ?host @ c # port" by simp
    ultimately have "host_port address ?host port" using ne all
      by (simp add: host_port_def)
    then show ?thesis using FindAllStringSubmatch_match by blast
  qed
qed

lemma FindAllStringSubmatch_nil_iff:
  "FindAllStringSubmatch address = [] \<longleftrightarrow> \<not> (\<exists>host port. host_port address host port)"
  using FindAllStringSubmatch_match FindAllStringSubmatch_row by fastforce

lemma foldl_digit_mono:
  "(n::nat) \<le> foldl (\<lambda>n c. n * 10 + (of_char c - of_char CHR ''0'')) n ds"
proof (induction ds arbitrary: n)
  case Nil
  show ?case by simp
next
  case (Cons c ds)
  have "n \<le> n * 10 + (of_char c - of_char CHR ''0'')" by simp
  also have "\<dots> \<le> foldl (\<lambda>n c. n * 10 + (of_char c - of_char CHR ''0'')) (n * 10 + (of_char c - of_char CHR ''0'')) ds"
    by (rule Cons.IH)
  finally show ?case by simp
qed

lemma ParseUint_loop_digits:
  assumes "list_all isDigit ds"
  shows "ParseUint_loop s0 n ds =
     (if ds = [] \<or> foldl (\<lambda>n c. n * 10 + (of_char c - of_char CHR ''0'')) n ds \<le> 65535
      then Inr (foldl (\<lambda>n c. n * 10 + (of_char c - of_char CHR ''0'')) n ds)
      else Inl (NumError s0 ErrRange))"
  using assms
proof (induction ds arbitrary: n)
  case Nil
  show ?case by simp
next
  case (Cons c ds)
  let ?n1 = "n * 10 + (of_char c - of_char CHR ''0'')"
  from Cons.prems have d: "isDigit c" "list_all isDigit ds" by simp_all
  show ?case
  proof (cases "?n1 > 65535")
    case True
    moreover have "?n1 \<le> foldl (\<lambda>n c. n * 10 + (of_char c - of_char CHR ''0'')) ?n1 ds"
      by (rule foldl_digit_mono)
    ultimately show ?thesis using d by (simp add: Let_def)
  next
    case False
    with d Cons.IH [OF d(2), of ?n1] show ?thesis by (auto simp: Let_def)
  qed
qed

lemma ParseUint_digits:
  assumes "list_all isDigit ds" "ds \<noteq> []"
  shows "ParseUint ds = (if decimal ds \<le> 65535 then Inr (decimal ds) else Inl (NumError ds ErrRange))"
  using assms ParseUint_loop_digits [OF assms(1), of ds 0]
  by (simp add: ParseUint_def decimal_def)

text \<open>
  The claim C3 as stated fails at its own example: a port of six digits is not a port of
  the pattern, so \<^verbatim>\<open>ParseAddress("host:999999", 25565)\<close> fails with the address error
  and \<^verbatim>\<open>strconv.ParseUint\<close> is never called.
\<close>

theorem ParseAddress_six_digit_port:
  "ParseAddress ''host:999999'' 25565 = ([], 25565, Some (AddressError ''host:999999''))"
  by (simp add: ParseAddress_def FindAllStringSubmatch_def isHostChar_def isDigit_def)

text \<open>
  C3, amended. \<^verbatim>\<open>ParseAddress\<close> matches the whole input against \<open>host[:port]\<close>: an
  input that is not of that form fails with the address error, returning the empty host
  and the default port; an input without a port segment yields the host and the default
  port; an input with a port of one to five digits yields the host and that port when the
  port is at most 65535, and fails with the range error of \<^verbatim>\<open>strconv.ParseUint\<close> when it
  is larger (as for \<^verbatim>\<open>host:99999\<close>).
\<close>

theorem ParseAddress_cases:
  "(\<not> (\<exists>host port. host_port address host port) \<longrightarrow>
      ParseAddress address defaultPort = ([], defaultPort, Some (AddressError address))) \<and>
   (host_port address host [] \<longrightarrow>
      ParseAddress address defaultPort = (host, defaultPort, None)) \<and>
   (host_port address host port \<and> port \<noteq> [] \<and> decimal port \<le> 65535 \<longrightarrow>
      ParseAddress address defaultPort = (host, word_of_nat (decimal port), None)) \<and>
   (host_port address host port \<and> port \<noteq> [] \<and> 65535 < decimal port \<longrightarrow>
      ParseAddress address defaultPort = ([], defaultPort, Some (NumError port ErrRange)))"
proof (intro conjI impI)
  assume "\<not> (\<exists>host port. host_port address host port)"
  then have "FindAllStringSubmatch address = []"
    by (simp add: FindAllStringSubmatch_nil_iff)
  then show "ParseAddress address defaultPort = ([], defaultPort, Some (AddressError address))"
    by (simp add: ParseAddress_def)
next
  assume "host_port address host []"
  then have "FindAllStringSubmatch address = [[address, host, []]]"
    by (rule FindAllStringSubmatch_match)
  then show "ParseAddress address defaultPort = (host, defaultPort, None)"
    by (simp add: ParseAddress_def)
next
  assume a: "host_port address host port \<and> port \<noteq> [] \<and> decimal port \<le> 65535"
  then have m: "FindAllStringSubmatch address = [[address, host, port]]"
    by (simp add: FindAllStringSubmatch_match)
  from a have "list_all isDigit port" by (auto simp: host_port_def)
  with a have "ParseUint port = Inr (decimal port)" by (simp add: ParseUint_digits)
  with m a show "ParseAddress address defaultPort = (host, word_of_nat (decimal port), None)"
    by (simp add: ParseAddress_def)
next
  assume a: "host_port address host port \<and> port \<noteq> [] \<and> 65535 < decimal port"
  then have m: "FindAllStringSubmatch address = [[address, host, port]]"
    by (simp add: FindAllStringSubmatch_match)
  from a have "list_all isDigit port" by (auto simp: host_port_def)
  with a have "ParseUint port = Inl (NumError port ErrRange)" by (simp add: ParseUint_digits)
  with m a show "ParseAddress address defaultPort = ([], defaultPort, Some (NumError port ErrRange))"
    by (simp add: ParseAddress_def)
qed

theorem ParseAddress_cases_witness:
  "\<not> (\<exists>host port. host_port ''not a valid host!!'' host port) \<and>
   ParseAddress ''not a valid host!!'' 25565 = ([], 25565, Some (AddressError ''not a valid host!!'')) \<and>
   host_port ''play.example.com'' ''play.example.com'' [] \<and>
   ParseAddress ''play.example.com'' 25565 = (''play.example.com'', 25565, None) \<and>
   host_port ''play.example.com:25566'' ''play.example.com'' ''25566'' \<and> ''25566'' \<noteq> [] \<and>
   decimal ''25566'' \<le> 65535 \<and>
   ParseAddress ''play.example.com:25566'' 25565 = (''play.example.com'', 25566, None) \<and>
   host_port ''host:99999'' ''host'' ''99999'' \<and> ''99999'' \<noteq> [] \<and> 65535 < decimal ''99999'' \<and>
   ParseAddress ''host:99999'' 25565 = ([], 25565, Some (NumError ''99999'' ErrRange))"
proof -
  have 1: "\<not> (\<exists>host port. host_port ''not a valid host!!'' host port)"
    unfolding FindAllStringSubmatch_nil_iff [symmetric]
    by (simp add: FindAllStringSubmatch_def isHostChar_def)
  have 2: "host_port ''play.example.com'' ''play.example.com'' []"
    by (simp add: host_port_def isHostChar_def)
  have 3: "host_port ''play.example.com:25566'' ''play.example.com'' ''25566'' \<and> ''25566'' \<noteq> [] \<and>
     decimal ''25566'' \<le> 65535"
    by (simp add: host_port_def isHostChar_def isDigit_def decimal_def)
  have 4: "host_port ''host:99999'' ''host'' ''99999'' \<and> ''99999'' \<noteq> [] \<and> 65535 < decimal ''99999''"
    by (simp add: host_port_def isHostChar_def isDigit_def decimal_def)
  have d: "decimal ''25566'' = 25566" by (simp add: decimal_def)
  from 1 2 3 4 d
    ParseAddress_cases [where address = "''not a valid host!!''" and defaultPort = 25565]
    ParseAddress_cases [where address = "''play.example.com''" and host = "''play.example.com''"
      and defaultPort = 25565]
    ParseAddress_cases [where address = "''play.example.com:25566''"
      and host = "''play.example.com''" and port = "''25566''" and defaultPort = 25565]
    ParseAddress_cases [where address = "''host:99999''" and host = "''host''"
      and port = "''99999''" and defaultPort = 25565]
  show ?thesis by simp
qed

subsection \<open>Frames on the wire\<close>

lemma le32_decode_le32: "le32_decode (le32 w) = w"
  unfolding le32_def le32_decode_def
  apply (rule bit_word_eqI)
  apply (auto simp: bit_simps)
  subgoal for n by (cases "n < 24") auto
  done

lemma length_le32: "length (le32 w) = 4"
  by (simp add: le32_def)

lemma Read_rx: "\<exists>rx'. snd (snd (Read r k)) = r\<lparr>rx := rx'\<rparr>"
proof (cases "rx r")
  case Nil
  then have "snd (snd (Read r k)) = r\<lparr>rx := rx r\<rparr>" by (simp add: Read_def)
  then show ?thesis by blast
next
  case (Cons ch rest)
  then show ?thesis
    by (cases "k = 0"; cases "length ch \<le> k") (auto simp: Read_def intro: exI [of _ "rx r"])
qed

lemma ReadFull_loop_rx: "\<exists>rx'. snd (snd (ReadFull_loop r k acc)) = r\<lparr>rx := rx'\<rparr>"
proof (induction r k acc rule: ReadFull_loop.induct)
  case (1 r k acc)
  show ?case
  proof (cases "length acc < k")
    case False
    then have "snd (snd (ReadFull_loop r k acc)) = r\<lparr>rx := rx r\<rparr>"
      by (subst ReadFull_loop.simps) simp
    then show ?thesis by blast
  next
    case True
    obtain bs err r' where rd: "Read r (k - length acc) = (bs, err, r')"
      by (cases "Read r (k - length acc)") auto
    from Read_rx [of r "k - length acc"] rd obtain rx' where r': "r' = r\<lparr>rx := rx'\<rparr>" by auto
    show ?thesis
    proof (cases err)
      case (Some e)
      with True rd r' show ?thesis by (subst ReadFull_loop.simps) auto
    next
      case None
      from "1.IH" [OF True rd [symmetric] refl None] obtain rx'' where
        "snd (snd (ReadFull_loop r' k (acc @ bs))) = r'\<lparr>rx := rx''\<rparr>" by blast
      with True rd r' None show ?thesis by (subst ReadFull_loop.simps) auto
    qed
  qed
qed

lemma binary_Read_rx: "\<exists>rx'. snd (binary_Read r) = r\<lparr>rx := rx'\<rparr>"
proof -
  obtain bs err r' where l: "ReadFull_loop r 4 [] = (bs, err, r')"
    by (cases "ReadFull_loop r 4 []") auto
  with ReadFull_loop_rx [of r 4 "[]"] obtain rx' where "r' = r\<lparr>rx := rx'\<rparr>" by auto
  with l show ?thesis
    by (auto simp: binary_Read_def ReadFull_def split: option.splits)
qed


lemma rx_only_refl: "rx_only r r"
  unfolding rx_only_def by (rule exI [of _ "rx r"]) simp

lemma rx_only_trans: "rx_only r r' \<Longrightarrow> rx_only r' r'' \<Longrightarrow> rx_only r r''"
  unfolding rx_only_def by auto

lemma rx_only_fields:
  "rx_only c c' \<Longrightarrow> tx c' = tx c \<and> tx_script c' = tx_script c \<and> rx_err c' = rx_err c \<and>
     setDeadline_err c' = setDeadline_err c \<and> setReadDeadline_err c' = setReadDeadline_err c \<and>
     close_err c' = close_err c"
  unfolding rx_only_def by auto

lemma Read_rx_only: "Read r k = (bs, err, r') \<Longrightarrow> rx_only r r'"
  using Read_rx [of r k] by (simp add: rx_only_def)

lemma binary_Read_rx_only: "binary_Read r = (v, r') \<Longrightarrow> rx_only r r'"
  using binary_Read_rx [of r] by (simp add: rx_only_def)

lemma loginResponse_rx_only: "loginResponse c = (err, c') \<Longrightarrow> rx_only c c'"
  unfolding loginResponse_def
  by (auto split: prod.splits sum.splits option.splits if_splits
      dest!: binary_Read_rx_only Read_rx_only intro: rx_only_trans)

lemma Write_writable:
  "writable c \<Longrightarrow> Write c bs = (None, c\<lparr>tx := tx c @ bs, tx_script := tl (tx_script c)\<rparr>)"
  by (auto simp: writable_def Write_def split: list.splits option.splits)

lemma Login_transmits:
  assumes "conn r = Some c" and "\<not> authSuccess r" and "writable c"
  shows "\<exists>c'. conn (snd (Login password r)) = Some c' \<and> tx c' = tx c @ loginPacket password"
proof -
  let ?c1 = "c\<lparr>tx := tx c @ loginPacket password, tx_script := tl (tx_script c)\<rparr>"
  obtain err c2 where lr: "loginResponse ?c1 = (err, c2)" by (cases "loginResponse ?c1") auto
  then have "rx_only ?c1 c2" by (rule loginResponse_rx_only)
  then have "tx c2 = tx ?c1" by (simp add: rx_only_fields)
  with assms lr show ?thesis
    by (auto simp: Login_def io_Copy_def Write_writable split: option.splits)
qed

lemma Run_transmits:
  assumes "conn r = Some c" and "authSuccess r" and "writable c"
  shows "Run command r = (None, r\<lparr>requestID := requestID r + 1,
     conn := Some (c\<lparr>tx := tx c @ commandPacket (requestID r + 1) command,
       tx_script := tl (tx_script c)\<rparr>)\<rparr>)"
  using assms by (simp add: Run_def io_Copy_def Write_writable)


lemma declaredLength_prefix: "declaredLength (le32 w @ rest) = sint w"
  by (simp add: declaredLength_def length_le32 le32_decode_le32)

lemma sint_word_of_nat_small:
  "n < 2 ^ 31 \<Longrightarrow> sint (word_of_nat n :: int32) = int n"
  by (simp add: signed_of_nat signed_take_bit_int_eq_self)

lemma connected_eq: "connected = NewRCON\<lparr>conn := Some okConn\<rparr>"
  by (simp add: connected_def Dial_def okConn_def)

lemma Login_connected:
  "Login ''pw'' connected = (None, NewRCON\<lparr>conn := Some (okConn\<lparr>rx := [],
     tx := [12, 0, 0, 0, 0, 0, 0, 0, 3, 0, 0, 0, 112, 119, 0, 0]\<rparr>),
     authSuccess := True, pumps := 1\<rparr>)"
  by (simp add: connected_eq Login_def NewRCON_def okConn_def io_Copy_def Write_def
      loginPacket_def le32_def bytes_of_def byte_of_char_def
      loginResponse_def binary_Read_def ReadFull_def Read_def le32_decode_def)

lemma authenticated_eq:
  "authenticated = NewRCON\<lparr>conn := Some (okConn\<lparr>rx := [],
     tx := [12, 0, 0, 0, 0, 0, 0, 0, 3, 0, 0, 0, 112, 119, 0, 0]\<rparr>),
     authSuccess := True, pumps := 1\<rparr>"
  by (simp add: authenticated_def Login_connected)

text \<open>
  The claim C6 as stated fails for a payload of \<open>2\<^sup>3\<^sup>1 - 10\<close> bytes or more: the length
  is converted to \<^verbatim>\<open>int32\<close>, and for a password of 2147483638 bytes the declared length
  is \<open>-2147483648\<close>, where the claim gives 2147483648.
\<close>

theorem declared_length_overflow:
  "declaredLength (loginPacket (replicate 2147483638 CHR ''a'')) = - 2147483648 \<and>
   4 + 4 + int (length (replicate 2147483638 CHR ''a'')) + 1 + 1 = 2147483648"
  by (simp add: loginPacket_def declaredLength_prefix)

text \<open>
  C6, amended. On a connection whose write succeeds, \<^verbatim>\<open>Login\<close> and \<^verbatim>\<open>Run\<close> transmit
  exactly: the length, the request ID (0 for \<^verbatim>\<open>Login\<close>, the incremented counter for
  \<^verbatim>\<open>Run\<close>) and the type (3 for \<^verbatim>\<open>Login\<close>, 2 for \<^verbatim>\<open>Run\<close>), each as a little-endian
  \<^verbatim>\<open>int32\<close>, then the bytes of the payload, one terminator byte and one padding byte.
  The length field holds \<open>10 + len(payload)\<close> truncated to 32 bits; for a payload of
  fewer than \<open>2\<^sup>3\<^sup>1 - 10\<close> bytes the declared length is \<open>4+4+len(payload)+1+1\<close>.
\<close>

theorem outbound_packet_layout:
  assumes "conn r = Some c" and "writable c"
  shows "(\<not> authSuccess r \<longrightarrow>
            (\<exists>c'. conn (snd (Login payload r)) = Some c' \<and>
               tx c' = tx c @ le32 (word_of_nat (10 + length payload)) @ le32 0 @ le32 3 @
                 bytes_of payload @ [0] @ [0])) \<and>
         (authSuccess r \<longrightarrow>
            (\<exists>c'. conn (snd (Run payload r)) = Some c' \<and>
               tx c' = tx c @ le32 (word_of_nat (10 + length payload)) @ le32 (requestID r + 1) @
                 le32 2 @ bytes_of payload @ [0] @ [0])) \<and>
         length (bytes_of payload) = length payload \<and>
         (10 + length payload < 2 ^ 31 \<longrightarrow>
            declaredLength (loginPacket payload) = 4 + 4 + int (length payload) + 1 + 1 \<and>
            declaredLength (commandPacket (requestID r + 1) payload) =
              4 + 4 + int (length payload) + 1 + 1)"
proof (intro conjI impI)
  assume "\<not> authSuccess r"
  with assms Login_transmits [of r c payload]
  show "\<exists>c'. conn (snd (Login payload r)) = Some c' \<and>
      tx c' = tx c @ le32 (word_of_nat (10 + length payload)) @ le32 0 @ le32 3 @
        bytes_of payload @ [0] @ [0]"
    by (simp add: loginPacket_def)
next
  assume "authSuccess r"
  with assms Run_transmits [of r c payload]
  show "\<exists>c'. conn (snd (Run payload r)) = Some c' \<and>
      tx c' = tx c @ le32 (word_of_nat (10 + length payload)) @ le32 (requestID r + 1) @
        le32 2 @ bytes_of payload @ [0] @ [0]"
    by (simp add: commandPacket_def)
next
  show "length (bytes_of payload) = length payload" by (simp add: bytes_of_def)
next
  assume "10 + length payload < 2 ^ 31"
  then have "sint (word_of_nat (10 + length payload) :: int32) = int (10 + length payload)"
    by (rule sint_word_of_nat_small)
  then show "declaredLength (loginPacket payload) = 4 + 4 + int (length payload) + 1 + 1"
    by (simp add: loginPacket_def declaredLength_prefix)
next
  assume "10 + length payload < 2 ^ 31"
  then have "sint (word_of_nat (10 + length payload) :: int32) = int (10 + length payload)"
    by (rule sint_word_of_nat_small)
  then show "declaredLength (commandPacket (requestID r + 1) payload) =
      4 + 4 + int (length payload) + 1 + 1"
    by (simp add: commandPacket_def declaredLength_prefix)
qed

theorem outbound_packet_layout_witness:
  "conn connected = Some okConn \<and> writable okConn \<and> \<not> authSuccess connected \<and>
   (\<exists>c'. conn (snd (Login ''pw'' connected)) = Some c' \<and>
      tx c' = [12, 0, 0, 0, 0, 0, 0, 0, 3, 0, 0, 0, 112, 119, 0, 0]) \<and>
   10 + length ''pw'' < (2::nat) ^ 31 \<and>
   declaredLength (loginPacket ''pw'') = 12 \<and>
   declaredLength (commandPacket 1 ''pw'') = 12 \<and>
   authSuccess authenticated \<and>
   (\<exists>c'. conn (snd (Run ''pw'' authenticated)) = Some c' \<and>
      tx c' = [12, 0, 0, 0, 0, 0, 0, 0, 3, 0, 0, 0, 112, 119, 0, 0,
               12, 0, 0, 0, 1, 0, 0, 0, 2, 0, 0, 0, 112, 119, 0, 0])"
proof -
  let ?c = "okConn\<lparr>rx := [], tx := [12, 0, 0, 0, 0, 0, 0, 0, 3, 0, 0, 0, 112, 119, 0, 0]\<rparr>"
  have a: "conn connected = Some okConn" "writable okConn" "\<not> authSuccess connected"
    by (simp_all add: connected_eq NewRCON_def writable_def okConn_def)
  have b: "conn authenticated = Some ?c" "writable ?c" "authSuccess authenticated"
    "requestID authenticated = 0"
    by (simp_all add: authenticated_eq NewRCON_def writable_def okConn_def)
  have enc: "le32 12 = [12, 0, 0, 0]" "le32 0 = [0, 0, 0, 0]"
    "le32 3 = [3, 0, 0, 0]" "le32 2 = [2, 0, 0, 0]" "le32 1 = [1, 0, 0, 0]"
    "bytes_of ''pw'' = [112, 119]" "tx okConn = []"
    by (simp_all add: le32_def bytes_of_def byte_of_char_def okConn_def)
  from outbound_packet_layout [OF a(1) a(2), of "''pw''"] a(3)
  have 1: "\<exists>c'. conn (snd (Login ''pw'' connected)) = Some c' \<and>
      tx c' = [12, 0, 0, 0, 0, 0, 0, 0, 3, 0, 0, 0, 112, 119, 0, 0]"
    and 2: "declaredLength (loginPacket ''pw'') = 12"
    and 3: "declaredLength (commandPacket 1 ''pw'') = 12"
    by (simp_all add: enc connected_eq NewRCON_def)
  from outbound_packet_layout [OF b(1) b(2), of "''pw''"] b(3) b(4)
  have 4: "\<exists>c'. conn (snd (Run ''pw'' authenticated)) = Some c' \<and>
      tx c' = [12, 0, 0, 0, 0, 0, 0, 0, 3, 0, 0, 0, 112, 119, 0, 0,
               12, 0, 0, 0, 1, 0, 0, 0, 2, 0, 0, 0, 112, 119, 0, 0]"
    by (simp add: enc)
  from a b 1 2 3 4 show ?thesis by simp
qed

subsection \<open>The request ID counter\<close>



lemma commandPacket_requestID:
  "le32_decode (take 4 (drop 4 (le32 len @ le32 w @ rest))) = w"
  by (simp add: length_le32 le32_decode_le32)





lemma sint_Suc:
  fixes w :: int32
  assumes "sint w < 2147483647"
  shows "sint (w + 1) = sint w + 1"
proof -
  have "- (2 ^ 31) \<le> sint w" using sint_ge [of w] by simp
  with assms show ?thesis
    by (simp add: sint_word_ariths signed_take_bit_int_eq_self)
qed

lemma Dial_fields:
  "authSuccess (snd (Dial dialed r)) = authSuccess r"
  "requestID (snd (Dial dialed r)) = requestID r"
  "pumps (snd (Dial dialed r)) = pumps r"
  by (simp_all add: Dial_def split: sum.splits option.splits)

lemma Login_requestID: "requestID (snd (Login password r)) = requestID r"
  by (simp add: Login_def split: option.splits prod.splits)

lemma Login_keeps_auth: "authSuccess r \<Longrightarrow> snd (Login password r) = r"
  by (simp add: Login_def split: option.splits prod.splits)

lemma Login_success:
  assumes "fst (Login password r) = None"
  shows "\<not> authSuccess r \<and> authSuccess (snd (Login password r)) \<and>
         (\<exists>c'. conn (snd (Login password r)) = Some c') \<and>
         pumps (snd (Login password r)) = pumps r + 1"
  using assms by (auto simp: Login_def split: option.splits prod.splits if_splits)

lemma Run_unauthenticated:
  "conn r = None \<or> \<not> authSuccess r \<Longrightarrow> snd (Run command r) = r"
  by (auto simp: Run_def split: option.splits)

lemma Run_authenticated:
  "conn r = Some c \<Longrightarrow> authSuccess r \<Longrightarrow>
     requestID (snd (Run command r)) = requestID r + 1 \<and> authSuccess (snd (Run command r)) \<and>
     pumps (snd (Run command r)) = pumps r"
  by (simp add: Run_def split: prod.splits)

lemma Close_fields:
  "\<not> authSuccess (snd (Close r))" "requestID (snd (Close r)) = 0"
  "pumps (snd (Close r)) = pumps r"
  by (simp_all add: Close_def split: option.splits)

lemma readMessage_fields:
  "authSuccess (snd (readMessage r)) = authSuccess r \<and>
   requestID (snd (readMessage r)) = requestID r \<and>
   pumps (snd (readMessage r)) = pumps r \<and>
   stdout (snd (readMessage r)) = stdout r \<and>
   closed (Messages (snd (readMessage r))) = closed (Messages r)"
  by (simp add: readMessage_def Let_def split: option.splits prod.splits sum.splits)

lemma pumpRound_fields:
  "authSuccess (snd (pumpRound r)) = authSuccess r \<and>
   requestID (snd (pumpRound r)) = requestID r \<and>
   pumps (snd (pumpRound r)) = pumps r \<and>
   closed (Messages (snd (pumpRound r))) = closed (Messages r)"
  using readMessage_fields [of r]
  by (auto simp: pumpRound_def split: option.splits prod.splits)

lemma reachable_counter:
  assumes "reachable r" and "\<not> authSuccess r"
  shows "requestID r = 0"
  using assms
proof (induction rule: reachable.induct)
  case new
  show ?case by (simp add: NewRCON_def)
next
  case (dial r dialed)
  then show ?case by (simp add: Dial_fields)
next
  case (login r password)
  then show ?case by (cases "authSuccess r") (simp_all add: Login_keeps_auth Login_requestID)
next
  case (run r command)
  show ?case
  proof (cases "conn r = None \<or> \<not> authSuccess r")
    case True
    with run show ?thesis by (simp add: Run_unauthenticated)
  next
    case False
    then obtain c where "conn r = Some c" "authSuccess r" by auto
    with run.prems Run_authenticated [of r c command] show ?thesis by simp
  qed
next
  case (close r)
  show ?case by (simp add: Close_fields)
next
  case (round r)
  then show ?case by (simp add: pumpRound_fields)
qed


lemma loginPacket_requestID: "le32_decode (take 4 (drop 4 (loginPacket password))) = 0"
proof -
  have "take 4 (drop 4 (loginPacket password)) = le32 0"
    by (simp add: loginPacket_def length_le32)
  then show ?thesis by (simp add: le32_decode_le32)
qed

lemma runs_counter:
  assumes "conn r = Some c" and "tx_script c = []" and "authSuccess r"
  shows "requestID (runs n command r) = requestID r + word_of_nat n"
  using assms
proof (induction n arbitrary: r c)
  case 0
  show ?case by simp
next
  case (Suc n)
  let ?c' = "c\<lparr>tx := tx c @ commandPacket (requestID r + 1) command, tx_script := tl (tx_script c)\<rparr>"
  from Suc.prems have w: "writable c" by (simp add: writable_def)
  from Run_transmits [OF Suc.prems(1) Suc.prems(3) w, of command]
  have run: "snd (Run command r) = r\<lparr>requestID := requestID r + 1, conn := Some ?c'\<rparr>"
    by simp
  have "requestID (runs n command (snd (Run command r))) =
      requestID (snd (Run command r)) + word_of_nat n"
  proof (rule Suc.IH)
    show "conn (snd (Run command r)) = Some ?c'" by (simp add: run)
    show "tx_script ?c' = []" using Suc.prems by simp
    show "authSuccess (snd (Run command r))" using Suc.prems by (simp add: run)
  qed
  then show ?case by (simp add: run)
qed

lemma reachable_connected: "reachable connected"
  unfolding connected_def by (intro reachable.dial reachable.new)

lemma reachable_authenticated: "reachable authenticated"
  unfolding authenticated_def by (intro reachable.login reachable_connected)


lemma readMessage_conn: "conn r \<noteq> None \<Longrightarrow> conn (snd (readMessage r)) \<noteq> None"
  by (auto simp: readMessage_def Let_def split: option.splits prod.splits sum.splits)

lemma pumpRound_conn: "conn r \<noteq> None \<Longrightarrow> conn (snd (pumpRound r)) \<noteq> None"
  using readMessage_conn [of r]
  by (auto simp: pumpRound_def split: option.splits prod.splits)

lemma Dial_conn: "conn r \<noteq> None \<Longrightarrow> conn (snd (Dial dialed r)) \<noteq> None"
  by (auto simp: Dial_def split: sum.splits option.splits)

lemma Run_conn: "conn r \<noteq> None \<Longrightarrow> conn (snd (Run command r)) \<noteq> None"
  by (auto simp: Run_def split: option.splits prod.splits)

lemma call_authenticated:
  assumes "conn r \<noteq> None" and "authSuccess r" and "c \<noteq> CallClose"
  shows "conn (perform c r) \<noteq> None \<and> authSuccess (perform c r) \<and>
         requestID (perform c r) = requestID r + (if is_run c then 1 else 0)"
proof (cases c)
  case (CallDial dialed)
  with assms show ?thesis by (simp add: Dial_conn Dial_fields)
next
  case (CallLogin password)
  with assms show ?thesis by (simp add: Login_keeps_auth)
next
  case (CallRun command)
  from assms obtain c0 where "conn r = Some c0" by auto
  with assms CallRun Run_authenticated [of r c0 command] show ?thesis
    by (simp add: Run_conn)
next
  case CallClose
  with assms show ?thesis by simp
next
  case GoroutineRound
  with assms pumpRound_conn [of r] pumpRound_fields [of r] show ?thesis by auto
qed

lemma calls_counter:
  assumes "conn r \<noteq> None" and "authSuccess r" and "CallClose \<notin> set cs"
    and "sint (requestID r) + int (run_count cs) \<le> 2147483647"
  shows "sint (requestID (calls cs r)) = sint (requestID r) + int (run_count cs)"
  using assms
proof (induction cs arbitrary: r)
  case Nil
  show ?case by (simp add: run_count_def)
next
  case (Cons c cs)
  from Cons.prems have nc: "c \<noteq> CallClose" and ncs: "CallClose \<notin> set cs" by auto
  from call_authenticated [OF Cons.prems(1) Cons.prems(2) nc]
  have inv: "conn (perform c r) \<noteq> None" "authSuccess (perform c r)"
    and step: "requestID (perform c r) = requestID r + (if is_run c then 1 else 0)" by simp_all
  have s: "sint (requestID (perform c r)) = sint (requestID r) + (if is_run c then 1 else 0)"
  proof (cases "is_run c")
    case True
    with Cons.prems(4) have "sint (requestID r) < 2147483647" by (simp add: run_count_def)
    with True step show ?thesis by (simp add: sint_Suc)
  next
    case False
    with step show ?thesis by simp
  qed
  with Cons.prems(4)
  have "sint (requestID (perform c r)) + int (run_count cs) \<le> 2147483647"
    by (cases "is_run c") (simp_all add: run_count_def)
  from Cons.IH [OF inv ncs this] s show ?case
    by (cases "is_run c") (simp_all add: run_count_def)
qed


text \<open>
  The claim C5 as stated fails in two places. The counter is an \<^verbatim>\<open>int32\<close>: after
  2147483647 calls of \<^verbatim>\<open>Run\<close> on the authenticated session the next call takes it from
  \<open>2147483647\<close> to \<open>-2147483648\<close>. And \<^verbatim>\<open>Close\<close> resets it: \<^verbatim>\<open>Run\<close>, \<^verbatim>\<open>Run\<close>,
  \<^verbatim>\<open>Close\<close>, \<^verbatim>\<open>Dial\<close>, \<^verbatim>\<open>Login\<close>, \<^verbatim>\<open>Run\<close> gives the counter values 1, 2 and then
  1 again.
\<close>

theorem requestID_not_monotonic:
  "sint (requestID (runs 2147483647 ''list'' authenticated)) = 2147483647 \<and>
   sint (requestID (runs 2147483648 ''list'' authenticated)) = - 2147483648 \<and>
   sint (requestID (calls [CallRun ''a'', CallRun ''b''] authenticated)) = 2 \<and>
   sint (requestID (calls [CallRun ''a'', CallRun ''b'', CallClose, CallDial (Inr okConn),
     CallLogin ''pw'', CallRun ''c''] authenticated)) = 1"
proof -
  let ?c = "okConn\<lparr>rx := [], tx := [12, 0, 0, 0, 0, 0, 0, 0, 3, 0, 0, 0, 112, 119, 0, 0]\<rparr>"
  have a: "conn authenticated = Some ?c" "tx_script ?c = []" "authSuccess authenticated"
    and z: "requestID authenticated = 0"
    by (simp_all add: authenticated_eq NewRCON_def okConn_def)
  have 1: "sint (requestID (runs 2147483647 ''list'' authenticated)) = 2147483647"
    "sint (requestID (runs 2147483648 ''list'' authenticated)) = - 2147483648"
    by (simp_all add: runs_counter [OF a] z)
  have 2: "sint (requestID (calls [CallRun ''a'', CallRun ''b''] authenticated)) = 2"
    by code_simp
  have 3: "sint (requestID (calls [CallRun ''a'', CallRun ''b'', CallClose, CallDial (Inr okConn),
     CallLogin ''pw'', CallRun ''c''] authenticated)) = 1"
    by code_simp
  from 1 2 3 show ?thesis by simp
qed



text \<open>
  C5, amended. In every session a caller can bring about: a \<^verbatim>\<open>Run\<close> on a connected,
  authenticated session adds one to the counter in \<^verbatim>\<open>int32\<close> arithmetic, which is the
  next larger value as long as the counter is below \<open>2147483647\<close>; a \<^verbatim>\<open>Run\<close> that is
  refused leaves the counter alone; \<^verbatim>\<open>Close\<close> sets it to 0; over any sequence of calls
  and goroutine rounds without a \<^verbatim>\<open>Close\<close>, on a connected, authenticated session, the
  counter rises by exactly the number of \<^verbatim>\<open>Run\<close> calls as long as it does not pass
  \<open>2147483647\<close>, so it increases strictly from one \<^verbatim>\<open>Run\<close> to the next; \<^verbatim>\<open>Login\<close>
  never changes the counter and the request ID field of the packet it transmits holds 0;
  and the first \<^verbatim>\<open>Run\<close> after a successful \<^verbatim>\<open>Login\<close> transmits a packet whose request
  ID field holds 1.
\<close>

theorem requestID_counter:
  assumes "reachable r"
  shows "(conn r \<noteq> None \<and> authSuccess r \<longrightarrow>
            requestID (snd (Run command r)) = requestID r + 1 \<and>
            (sint (requestID r) < 2147483647 \<longrightarrow>
               sint (requestID (snd (Run command r))) = sint (requestID r) + 1)) \<and>
         (conn r = None \<or> \<not> authSuccess r \<longrightarrow>
            requestID (snd (Run command r)) = requestID r) \<and>
         requestID (snd (Close r)) = 0 \<and>
         (conn r \<noteq> None \<and> authSuccess r \<and> CallClose \<notin> set cs \<and>
          sint (requestID r) + int (run_count cs) \<le> 2147483647 \<longrightarrow>
            sint (requestID (calls cs r)) = sint (requestID r) + int (run_count cs)) \<and>
         requestID (snd (Login password r)) = requestID r \<and>
         (conn r = Some c \<and> \<not> authSuccess r \<and> writable c \<longrightarrow>
            (\<exists>c'. conn (snd (Login password r)) = Some c' \<and>
               tx c' = tx c @ le32 (word_of_nat (10 + length password)) @ le32 0 @ le32 3 @
                 bytes_of password @ [0] @ [0] \<and>
               le32_decode (take 4 (drop 4 (le32 (word_of_nat (10 + length password)) @
                 le32 0 @ le32 3 @ bytes_of password @ [0] @ [0]))) = 0)) \<and>
         (fst (Login password r) = None \<and> conn (snd (Login password r)) = Some c1 \<and>
            writable c1 \<longrightarrow>
            (\<exists>c2. Run command (snd (Login password r)) =
                     (None, (snd (Login password r))\<lparr>requestID := 1, conn := Some c2\<rparr>) \<and>
                   tx c2 = tx c1 @ le32 (word_of_nat (10 + length command)) @ le32 1 @ le32 2 @
                     bytes_of command @ [0] @ [0] \<and>
                   le32_decode (take 4 (drop 4 (le32 (word_of_nat (10 + length command)) @
                     le32 1 @ le32 2 @ bytes_of command @ [0] @ [0]))) = 1))"
proof (intro conjI impI)
  assume a: "conn r \<noteq> None \<and> authSuccess r"
  then obtain c0 where "conn r = Some c0" by auto
  with a show "requestID (snd (Run command r)) = requestID r + 1"
    by (simp add: Run_authenticated)
  then show "sint (requestID (snd (Run command r))) = sint (requestID r) + 1"
    if "sint (requestID r) < 2147483647"
    using that by (simp add: sint_Suc)
next
  assume "conn r = None \<or> \<not> authSuccess r"
  then show "requestID (snd (Run command r)) = requestID r"
    by (simp add: Run_unauthenticated)
next
  show "requestID (snd (Close r)) = 0" by (rule Close_fields)
next
  assume "conn r \<noteq> None \<and> authSuccess r \<and> CallClose \<notin> set cs \<and>
    sint (requestID r) + int (run_count cs) \<le> 2147483647"
  then show "sint (requestID (calls cs r)) = sint (requestID r) + int (run_count cs)"
    by (simp add: calls_counter)
next
  show "requestID (snd (Login password r)) = requestID r" by (rule Login_requestID)
next
  assume "conn r = Some c \<and> \<not> authSuccess r \<and> writable c"
  then have "\<exists>c'. conn (snd (Login password r)) = Some c' \<and> tx c' = tx c @ loginPacket password"
    by (simp add: Login_transmits)
  then show "\<exists>c'. conn (snd (Login password r)) = Some c' \<and>
      tx c' = tx c @ le32 (word_of_nat (10 + length password)) @ le32 0 @ le32 3 @
        bytes_of password @ [0] @ [0] \<and>
      le32_decode (take 4 (drop 4 (le32 (word_of_nat (10 + length password)) @
        le32 0 @ le32 3 @ bytes_of password @ [0] @ [0]))) = 0"
    using commandPacket_requestID [of "word_of_nat (10 + length password)" 0
        "le32 3 @ bytes_of password @ [0] @ [0]"]
    unfolding loginPacket_def by (auto simp del: take_append drop_append)
next
  let ?r' = "snd (Login password r)"
  assume a: "fst (Login password r) = None \<and> conn ?r' = Some c1 \<and> writable c1"
  with Login_success [of password r] have na: "\<not> authSuccess r" and au: "authSuccess ?r'"
    by simp_all
  from assms na have "requestID r = 0" by (rule reachable_counter)
  then have z: "requestID ?r' = 0" by (simp add: Login_requestID)
  from a have "conn ?r' = Some c1" "writable c1" by simp_all
  from Run_transmits [OF this(1) au this(2), of command] z
  show "\<exists>c2. Run command ?r' = (None, ?r'\<lparr>requestID := 1, conn := Some c2\<rparr>) \<and>
      tx c2 = tx c1 @ le32 (word_of_nat (10 + length command)) @ le32 1 @ le32 2 @
        bytes_of command @ [0] @ [0] \<and>
      le32_decode (take 4 (drop 4 (le32 (word_of_nat (10 + length command)) @
        le32 1 @ le32 2 @ bytes_of command @ [0] @ [0]))) = 1"
    by (intro exI [of _ "c1\<lparr>tx := tx c1 @ commandPacket 1 command,
      tx_script := tl (tx_script c1)\<rparr>"])
      (simp add: commandPacket_def commandPacket_requestID del: take_append drop_append)
qed

theorem requestID_counter_witness:
  "reachable authenticated \<and> conn authenticated \<noteq> None \<and> authSuccess authenticated \<and>
   sint (requestID authenticated) < 2147483647 \<and>
   requestID (snd (Run ''list'' authenticated)) = requestID authenticated + 1 \<and>
   sint (requestID (snd (Run ''list'' authenticated))) = sint (requestID authenticated) + 1 \<and>
   CallClose \<notin> set [CallRun ''list'', GoroutineRound, CallLogin ''pw'',
     CallDial (Inl (NetError 1)), CallRun ''stop''] \<and>
   sint (requestID authenticated) + int (run_count [CallRun ''list'', GoroutineRound,
     CallLogin ''pw'', CallDial (Inl (NetError 1)), CallRun ''stop'']) \<le> 2147483647 \<and>
   sint (requestID (calls [CallRun ''list'', GoroutineRound, CallLogin ''pw'',
     CallDial (Inl (NetError 1)), CallRun ''stop''] authenticated)) = 2 \<and>
   requestID (snd (Close authenticated)) = 0 \<and>
   reachable connected \<and> \<not> authSuccess connected \<and>
   requestID (snd (Run ''list'' connected)) = requestID connected \<and>
   requestID (snd (Login ''pw'' connected)) = requestID connected \<and>
   conn connected = Some okConn \<and> writable okConn \<and>
   (\<exists>c'. conn (snd (Login ''pw'' connected)) = Some c' \<and>
      tx c' = [12, 0, 0, 0, 0, 0, 0, 0, 3, 0, 0, 0, 112, 119, 0, 0]) \<and>
   le32_decode (take 4 (drop 4 [12, 0, 0, 0, 0, 0, 0, 0, 3, 0, 0, 0, 112, 119, 0, 0])) = 0 \<and>
   fst (Login ''pw'' connected) = None \<and>
   (\<exists>c1. conn (snd (Login ''pw'' connected)) = Some c1 \<and> writable c1 \<and>
      (\<exists>c2. Run ''list'' (snd (Login ''pw'' connected)) =
          (None, (snd (Login ''pw'' connected))\<lparr>requestID := 1, conn := Some c2\<rparr>) \<and>
         tx c2 = tx c1 @ [14, 0, 0, 0, 1, 0, 0, 0, 2, 0, 0, 0, 108, 105, 115, 116, 0, 0])) \<and>
   le32_decode (take 4 (drop 4
     [14, 0, 0, 0, 1, 0, 0, 0, 2, 0, 0, 0, 108, 105, 115, 116, 0, 0])) = 1"
proof -
  let ?c = "okConn\<lparr>rx := [], tx := [12, 0, 0, 0, 0, 0, 0, 0, 3, 0, 0, 0, 112, 119, 0, 0]\<rparr>"
  let ?cs = "[CallRun ''list'', GoroutineRound, CallLogin ''pw'',
     CallDial (Inl (NetError 1)), CallRun ''stop'']"
  have enc: "le32 12 = [12, 0, 0, 0]" "le32 14 = [14, 0, 0, 0]" "le32 0 = [0, 0, 0, 0]"
    "le32 1 = [1, 0, 0, 0]" "le32 2 = [2, 0, 0, 0]" "le32 3 = [3, 0, 0, 0]"
    "bytes_of ''pw'' = [112, 119]" "bytes_of ''list'' = [108, 105, 115, 116]" "tx okConn = []"
    by (simp_all add: le32_def bytes_of_def byte_of_char_def okConn_def)
  have a: "conn authenticated \<noteq> None" "authSuccess authenticated"
    "sint (requestID authenticated) < 2147483647"
    and a0: "sint (requestID authenticated) = 0"
    by (simp_all add: authenticated_eq NewRCON_def)
  have cs: "CallClose \<notin> set ?cs" and rc: "run_count ?cs = 2"
    by (simp_all add: run_count_def)
  from a0 have cs3: "sint (requestID authenticated) + int (run_count ?cs) \<le> 2147483647"
    by (simp only: rc)
  have b: "\<not> authSuccess connected" "conn connected = Some okConn" "writable okConn"
    by (simp_all add: connected_eq NewRCON_def writable_def okConn_def)
  have l: "fst (Login ''pw'' connected) = None" "conn (snd (Login ''pw'' connected)) = Some ?c"
    "writable ?c" and txc: "tx ?c = [12, 0, 0, 0, 0, 0, 0, 0, 3, 0, 0, 0, 112, 119, 0, 0]"
    by (simp_all add: Login_connected NewRCON_def writable_def okConn_def)
  note A = requestID_counter [OF reachable_authenticated, where command = "''list''"
      and password = "''pw''" and c = okConn and ?c1.0 = ?c and cs = ?cs]
  note B = requestID_counter [OF reachable_connected, where command = "''list''"
      and password = "''pw''" and c = okConn and ?c1.0 = ?c and cs = ?cs]
  from A a have 1: "requestID (snd (Run ''list'' authenticated)) = requestID authenticated + 1"
    and 2: "sint (requestID (snd (Run ''list'' authenticated))) = sint (requestID authenticated) + 1"
    and 0: "requestID (snd (Close authenticated)) = 0"
    by blast+
  from A a(1,2) cs cs3
  have "sint (requestID (calls ?cs authenticated)) = sint (requestID authenticated) + int (run_count ?cs)"
    by blast
  then have m: "sint (requestID (calls ?cs authenticated)) = 2" by (simp only: a0 rc)
  from B b have 3: "requestID (snd (Run ''list'' connected)) = requestID connected"
    and 4: "requestID (snd (Login ''pw'' connected)) = requestID connected"
    by blast+
  from B b have "\<exists>c'. conn (snd (Login ''pw'' connected)) = Some c' \<and>
      tx c' = tx okConn @ le32 (word_of_nat (10 + length ''pw'')) @ le32 0 @ le32 3 @
        bytes_of ''pw'' @ [0] @ [0] \<and>
      le32_decode (take 4 (drop 4 (le32 (word_of_nat (10 + length ''pw'')) @
        le32 0 @ le32 3 @ bytes_of ''pw'' @ [0] @ [0]))) = 0"
    by blast
  then have 5: "\<exists>c'. conn (snd (Login ''pw'' connected)) = Some c' \<and>
      tx c' = [12, 0, 0, 0, 0, 0, 0, 0, 3, 0, 0, 0, 112, 119, 0, 0]"
    and 6: "le32_decode (take 4 (drop 4 [12, 0, 0, 0, 0, 0, 0, 0, 3, 0, 0, 0, 112, 119, 0, 0])) = 0"
    by (auto simp: enc)
  from B l have "\<exists>c2. Run ''list'' (snd (Login ''pw'' connected)) =
          (None, (snd (Login ''pw'' connected))\<lparr>requestID := 1, conn := Some c2\<rparr>) \<and>
         tx c2 = tx ?c @ le32 (word_of_nat (10 + length ''list'')) @ le32 1 @ le32 2 @
           bytes_of ''list'' @ [0] @ [0] \<and>
         le32_decode (take 4 (drop 4 (le32 (word_of_nat (10 + length ''list'')) @
           le32 1 @ le32 2 @ bytes_of ''list'' @ [0] @ [0]))) = 1"
    by blast
  then have 7: "\<exists>c2. Run ''list'' (snd (Login ''pw'' connected)) =
          (None, (snd (Login ''pw'' connected))\<lparr>requestID := 1, conn := Some c2\<rparr>) \<and>
         tx c2 = tx ?c @ [14, 0, 0, 0, 1, 0, 0, 0, 2, 0, 0, 0, 108, 105, 115, 116, 0, 0]"
    and 9: "le32_decode (take 4 (drop 4
     [14, 0, 0, 0, 1, 0, 0, 0, 2, 0, 0, 0, 108, 105, 115, 116, 0, 0])) = 1"
    by (auto simp: enc)
  from l 7 have 8: "\<exists>c1. conn (snd (Login ''pw'' connected)) = Some c1 \<and> writable c1 \<and>
      (\<exists>c2. Run ''list'' (snd (Login ''pw'' connected)) =
          (None, (snd (Login ''pw'' connected))\<lparr>requestID := 1, conn := Some c2\<rparr>) \<and>
         tx c2 = tx c1 @ [14, 0, 0, 0, 1, 0, 0, 0, 2, 0, 0, 0, 108, 105, 115, 116, 0, 0])"
    by blast
  from reachable_authenticated reachable_connected a cs cs3 m 0 b l(1) 1 2 3 4 5 6 8 9
  show ?thesis by blast
qed

subsection \<open>Login\<close>








lemma Dial_ok: "setDeadline_err c = None \<Longrightarrow> snd (Dial (Inr c) r) = r\<lparr>conn := Some c\<rparr>"
  by (simp add: Dial_def)




subsection \<open>Close\<close>


















subsection \<open>The background goroutine\<close>

lemma readMessage_read_error:
  assumes "conn r = Some c" and "rx c = []"
  shows "readMessage r = (Some (rx_err c), r)"
  using assms by (simp add: readMessage_def Read_def)

lemma pump_read_error:
  assumes "conn r = Some c" and "rx c = []" and "\<not> is_panic (rx_err c)"
  shows "pump n (r\<lparr>stdout := out\<rparr>) = Looping (r\<lparr>stdout := out @ replicate n (rx_err c)\<rparr>)"
proof (induction n arbitrary: out)
  case 0
  show ?case by simp
next
  case (Suc n)
  from assms have "readMessage (r\<lparr>stdout := out\<rparr>) = (Some (rx_err c), r\<lparr>stdout := out\<rparr>)"
    by (simp add: readMessage_read_error)
  with assms have "pumpRound (r\<lparr>stdout := out\<rparr>) = (None, r\<lparr>stdout := out @ [rx_err c]\<rparr>)"
    by (simp add: pumpRound_def)
  with Suc.IH [of "out @ [rx_err c]"] show ?case
    by (simp add: replicate_app_Cons_same)
qed

lemma pump_not_Returned: "pump n r \<noteq> Returned r'"
  by (induction n arbitrary: r) (auto split: prod.splits option.splits)

lemma pump_closed:
  "pump n r = Looping r' \<or> pump n r = Crashed panic r' \<Longrightarrow>
     closed (Messages r') = closed (Messages r)"
proof (induction n arbitrary: r)
  case 0
  then show ?case by simp
next
  case (Suc n)
  obtain p r1 where pr: "pumpRound r = (p, r1)" by (cases "pumpRound r") auto
  with pumpRound_fields [of r] have c: "closed (Messages r1) = closed (Messages r)" by simp
  show ?case
  proof (cases p)
    case None
    with Suc.prems pr have "pump n r1 = Looping r' \<or> pump n r1 = Crashed panic r'" by simp
    from Suc.IH [OF this] c show ?thesis by simp
  next
    case (Some e)
    with Suc.prems pr c show ?thesis by simp
  qed
qed

text \<open>
  C1 does not hold of the code. The claim is that a read error ends the loop and closes
  \<^verbatim>\<open>Messages\<close> once. The loop has no exit and the package never closes the channel: on
  a connection with no data left, whose every \<^verbatim>\<open>Read\<close> returns the same error (\<open>EOF\<close>
  after a clean end of stream), the goroutine is still in the loop after any number \<open>n\<close>
  of rounds, it has printed the error \<open>n\<close> times, and \<^verbatim>\<open>Messages\<close> is as it was.
\<close>

theorem pump_never_stops:
  assumes "conn r = Some c" and "rx c = []" and "\<not> is_panic (rx_err c)"
  shows "pump n r = Looping (r\<lparr>stdout := stdout r @ replicate n (rx_err c)\<rparr>) \<and>
         Messages (r\<lparr>stdout := stdout r @ replicate n (rx_err c)\<rparr>) = Messages r"
  using pump_read_error [OF assms, of n "stdout r"] by simp

theorem pump_never_stops_witness:
  "(\<exists>c. conn authenticated = Some c \<and> rx c = [] \<and> rx_err c = EOF \<and> \<not> is_panic (rx_err c)) \<and>
   pump 3 authenticated = Looping (authenticated\<lparr>stdout := [EOF, EOF, EOF]\<rparr>) \<and>
   \<not> closed (Messages authenticated)"
proof -
  let ?c = "okConn\<lparr>rx := [], tx := [12, 0, 0, 0, 0, 0, 0, 0, 3, 0, 0, 0, 112, 119, 0, 0]\<rparr>"
  have a: "conn authenticated = Some ?c" "rx ?c = []" "\<not> is_panic (rx_err ?c)"
    and e: "rx_err ?c = EOF" and o: "stdout authenticated = []"
    and m: "\<not> closed (Messages authenticated)"
    by (simp_all add: authenticated_eq NewRCON_def okConn_def)
  from pump_never_stops [OF a, of 3]
  have "pump 3 authenticated = Looping (authenticated\<lparr>stdout := [EOF, EOF, EOF]\<rparr>)"
    by (simp add: e o numeral_3_eq_3)
  with a e m show ?thesis by blast
qed


subsection \<open>Short reads in readMessage\<close>

lemma splitLength_first_round:
  "fst (readMessage splitLength) = None \<and> delivered (pump 1 splitLength) = [] \<and>
   printed (pump 1 splitLength) = []"
  by code_simp

lemma splitLength_rounds:
  "delivered (pump 4 splitLength) = [] \<and>
   printed (pump 4 splitLength) = [ErrUnexpectedPacketType 0 26984, EOF]"
  by code_simp

lemma wholeFrame_rounds:
  "delivered (pump 2 wholeFrame) = [[CHR ''h'', CHR ''i'', CHR 0x00, CHR 0x00]] \<and>
   printed (pump 2 wholeFrame) = [EOF]"
  by code_simp

lemma splitPayload_rounds:
  "delivered (pump 3 splitPayload) = [[CHR ''h'', CHR 0x00, CHR 0x00, CHR 0x00]] \<and>
   printed (pump 3 splitPayload) = [EOF]"
  by code_simp

lemma emptyFrame_rounds:
  "fst (readMessage emptyFrame) = None \<and> delivered (pump 1 emptyFrame) = [] \<and>
   printed (pump 1 emptyFrame) = []"
  by code_simp

text \<open>
  C2 does not hold of the code. The claim is that a read of fewer bytes than requested is
  retried or reported. With the length field of a well-formed response arriving in two
  segments, \<^verbatim>\<open>readMessage\<close> returns \<^verbatim>\<open>nil\<close> after the first two bytes and drops them;
  the rounds that follow read the rest of the frame out of step, print an error about the
  packet type and deliver nothing. With the payload arriving in two segments, the message
  delivered is the first segment filled up with zero bytes. The same response in whole
  segments is delivered as sent. A response with an empty payload ends in the same
  \<^verbatim>\<open>nil\<close> as the short read of the length.
\<close>

theorem short_reads_dropped:
  "fst (readMessage splitLength) = None \<and> delivered (pump 1 splitLength) = [] \<and>
   printed (pump 1 splitLength) = [] \<and>
   delivered (pump 4 splitLength) = [] \<and>
   printed (pump 4 splitLength) = [ErrUnexpectedPacketType 0 26984, EOF] \<and>
   delivered (pump 3 splitPayload) = [[CHR ''h'', CHR 0x00, CHR 0x00, CHR 0x00]] \<and>
   printed (pump 3 splitPayload) = [EOF] \<and>
   delivered (pump 2 wholeFrame) = [[CHR ''h'', CHR ''i'', CHR 0x00, CHR 0x00]] \<and>
   printed (pump 2 wholeFrame) = [EOF] \<and>
   fst (readMessage emptyFrame) = None \<and> delivered (pump 1 emptyFrame) = [] \<and>
   printed (pump 1 emptyFrame) = []"
  using splitLength_first_round splitLength_rounds wholeFrame_rounds splitPayload_rounds
    emptyFrame_rounds
  by simp

end
